theory Spec2Isabelle
  imports
    Main
    "HOL-Library.Sublist"
    "HOL-Library.AList"
    "HOL-Library.Char_ord"
    "HOL-Library.List_Lexorder"
begin

section \<open>The dataset organiser: data model\<close>

text \<open>
  The development follows \<^verbatim>\<open>solution_organise_dataset.py\<close>. The class
  \<^verbatim>\<open>OrganiseDataset\<close> holds one field, the folder path; every method reads or changes
  the folder behind that path. Python strings are compared by code point, which is the
  lexicographic order on \<^typ>\<open>string\<close> given by the character order of the library.
\<close>

datatype error =
  FileNotFoundError | UnboundLocalError | IndexError | IsADirectoryError | PermissionError

text \<open>
  A folder is the list of its entries, each a file name with what \<^verbatim>\<open>cv2.imread\<close>
  returns for it: \<open>None\<close> for a file that does not decode, the image otherwise.
\<close>

type_synonym 'img folder = "(string \<times> 'img option) list"

text \<open>
  The world the methods act on: the folder behind \<^verbatim>\<open>folder_path\<close> (\<open>None\<close>
  when the path does not exist), the lines printed so far, the names handed to
  successful \<^verbatim>\<open>os.remove\<close> calls, in call order, and the entries that
  \<^verbatim>\<open>os.remove\<close> cannot delete, each with the error it raises for it
  (\<open>IsADirectoryError\<close> for a sub-directory, \<open>PermissionError\<close> for a protected file).
\<close>

record 'img world =
  folder :: "'img folder option"
  stdout :: "string list"
  deleted :: "string list"
  remove_errors :: "(string \<times> error) list"

text \<open>
  The imported module \<^verbatim>\<open>imaging_interview\<close> and \<^verbatim>\<open>cv2.resize\<close> are not part of
  the repository; they are parameters of the model. A representation has a shape
  (rows, columns); \<^verbatim>\<open>compare_frames_change_detection\<close> returns a triple of which only
  the score is read.
\<close>

record ('img, 'rep, 'score) imaging =
  preprocess_image_change_detection :: "'img \<Rightarrow> int list \<Rightarrow> 'rep"
  shape :: "'rep \<Rightarrow> nat \<times> nat"
  resize :: "'rep \<Rightarrow> nat \<times> nat \<Rightarrow> 'rep"
  compare_frames_change_detection :: "'rep \<Rightarrow> 'rep \<Rightarrow> int \<Rightarrow> 'score"

text \<open>The keyword arguments of \<^verbatim>\<open>remove_duplicates\<close>.\<close>

record 'score params =
  gaussian_blur_radius_list :: "int list"
  min_contour_area :: int
  min_score :: 'score

section \<open>String and list primitives of Python\<close>

definition endswith :: "string \<Rightarrow> string \<Rightarrow> bool" where
  "endswith s suf = suffix suf s"

definition startswith :: "string \<Rightarrow> string \<Rightarrow> bool" where
  "startswith s pre = prefix pre s"

text \<open>\<^verbatim>\<open>s.split(sep)[0]\<close> for a one-character separator: the text before its first occurrence.\<close>

definition split_head :: "char \<Rightarrow> string \<Rightarrow> string" where
  "split_head sep s = takeWhile (\<lambda>c. c \<noteq> sep) s"

text \<open>\<^verbatim>\<open>xs[i]\<close> for an index that is not negative.\<close>

definition getitem :: "'a list \<Rightarrow> nat \<Rightarrow> error + 'a" where
  "getitem xs i = (if i < length xs then Inr (xs ! i) else Inl IndexError)"

text \<open>\<^verbatim>\<open>str(n)\<close> for a count.\<close>

definition digit_char :: "nat \<Rightarrow> char" where
  "digit_char d = char_of (of_char CHR ''0'' + d)"

fun str_nat :: "nat \<Rightarrow> string" where
  "str_nat n = (if n < 10 then [digit_char n] else str_nat (n div 10) @ [digit_char (n mod 10)])"

declare str_nat.simps [simp del]

section \<open>Grouping: \<^verbatim>\<open>get_camera_id_indices\<close>\<close>

definition listdir :: "'img folder \<Rightarrow> string list" where
  "listdir entries = map fst entries"

text \<open>The first loop and the sort: the names ending in \<^verbatim>\<open>.png\<close>, ascending.\<close>

definition image_files :: "'img folder \<Rightarrow> string list" where
  "image_files entries = sort (filter (\<lambda>file. endswith file ''.png'') (listdir entries))"

text \<open>The second loop: the set of camera identifiers.\<close>

fun collect_camera_ids :: "string list \<Rightarrow> string set \<Rightarrow> string set" where
  "collect_camera_ids [] camera_ids = camera_ids"
| "collect_camera_ids (file_name # rest) camera_ids =
     collect_camera_ids rest
       (if CHR ''-'' \<in> set file_name then insert (split_head CHR ''-'' file_name) camera_ids
        else if CHR ''_'' \<in> set file_name then insert (split_head CHR ''_'' file_name) camera_ids
        else camera_ids)"

text \<open>The list comprehension over \<^verbatim>\<open>enumerate(Image_files)\<close>.\<close>

definition indices_of :: "string \<Rightarrow> string list \<Rightarrow> nat list" where
  "indices_of ids files =
     map fst (filter (\<lambda>(index, filename). startswith filename ids) (enumerate 0 files))"

text \<open>
  The third loop. A Python dictionary keeps insertion order and an assignment to a key
  already present keeps its place: an association list under \<^const>\<open>AList.update\<close>.
\<close>

fun fill_camera_id_indices ::
  "string list \<Rightarrow> string list \<Rightarrow> (string \<times> nat list) list \<Rightarrow> (string \<times> nat list) list" where
  "fill_camera_id_indices [] files camera_id_indices = camera_id_indices"
| "fill_camera_id_indices (ids # rest) files camera_id_indices =
     fill_camera_id_indices rest files
       (AList.update ids (indices_of ids files) camera_id_indices)"

definition get_camera_id_indices ::
  "'img folder option \<Rightarrow> error + ((string \<times> nat list) list \<times> string list)" where
  "get_camera_id_indices fo =
     (case fo of
        None \<Rightarrow> Inl FileNotFoundError
      | Some entries \<Rightarrow>
          let Image_files = image_files entries;
              camera_ids = collect_camera_ids Image_files {}
          in Inr (fill_camera_id_indices (sorted_list_of_set camera_ids) Image_files [],
                  Image_files))"

section \<open>The decision loop of \<^verbatim>\<open>remove_duplicates\<close>\<close>

text \<open>\<^verbatim>\<open>cv2.imread\<close>: \<open>None\<close> for a missing file as for one that does not decode.\<close>

definition imread :: "'img folder \<Rightarrow> string \<Rightarrow> 'img option" where
  "imread entries name = (case map_of entries name of None \<Rightarrow> None | Some r \<Rightarrow> r)"

text \<open>
  Lines 100 to 103: \<^verbatim>\<open>prev_frame\<close> is resized to the columns and rows of
  \<^verbatim>\<open>next_frame\<close> when their shapes differ, and the resized value is what the
  variable holds from then on.
\<close>

definition match_shape :: "('img, 'rep, 'score) imaging \<Rightarrow> 'rep \<Rightarrow> 'rep \<Rightarrow> 'rep" where
  "match_shape im prev_frame next_frame =
     (if shape im prev_frame \<noteq> shape im next_frame
      then resize im prev_frame (snd (shape im next_frame), fst (shape im next_frame))
      else prev_frame)"

text \<open>
  One pass of the inner loop body. The local variable \<^verbatim>\<open>prev_frame\<close> is \<open>None\<close>
  while nothing has been assigned to it in this call of \<^verbatim>\<open>remove_duplicates\<close>; reading
  it then raises. \<open>first\<close> is \<^verbatim>\<open>img_indices[0]\<close>. The state is the pair of
  \<^verbatim>\<open>prev_frame\<close> and \<^verbatim>\<open>remove_indices\<close>.
\<close>

definition scan_image ::
  "('img, 'rep, 'score::linorder) imaging \<Rightarrow> 'score params \<Rightarrow> 'img folder \<Rightarrow> string list \<Rightarrow>
   nat \<Rightarrow> nat \<Rightarrow> 'rep option \<times> nat list \<Rightarrow> error + ('rep option \<times> nat list)" where
  "scan_image im ps entries Image_files first img_index st =
     (case st of (prev_frame, remove_indices) \<Rightarrow>
      case getitem Image_files img_index of
        Inl e \<Rightarrow> Inl e
      | Inr file_name \<Rightarrow>
         (case imread entries file_name of
            None \<Rightarrow> Inr (prev_frame, remove_indices @ [img_index])
          | Some read_image \<Rightarrow>
              if img_index = first then
                Inr (Some (preprocess_image_change_detection im read_image
                             (gaussian_blur_radius_list ps)), remove_indices)
              else
                let next_frame = preprocess_image_change_detection im read_image
                                   (gaussian_blur_radius_list ps)
                in (case prev_frame of
                      None \<Rightarrow> Inl UnboundLocalError
                    | Some prev \<Rightarrow>
                        let prev' = match_shape im prev next_frame;
                            score = compare_frames_change_detection im prev' next_frame
                                      (min_contour_area ps)
                        in if score < min_score ps
                           then Inr (Some prev', remove_indices @ [img_index])
                           else Inr (Some next_frame, remove_indices))))"

text \<open>The inner loop over the indices still to visit.\<close>

fun scan_indices ::
  "('img, 'rep, 'score::linorder) imaging \<Rightarrow> 'score params \<Rightarrow> 'img folder \<Rightarrow> string list \<Rightarrow>
   nat \<Rightarrow> nat list \<Rightarrow> 'rep option \<times> nat list \<Rightarrow> error + ('rep option \<times> nat list)" where
  "scan_indices im ps entries Image_files first [] st = Inr st"
| "scan_indices im ps entries Image_files first (img_index # rest) st =
     (case scan_image im ps entries Image_files first img_index st of
        Inl e \<Rightarrow> Inl e
      | Inr st' \<Rightarrow> scan_indices im ps entries Image_files first rest st')"

text \<open>
  One pass of the outer loop body: \<^verbatim>\<open>remove_indices\<close> starts empty,
  \<^verbatim>\<open>prev_frame\<close> is whatever the passes before left in it.
\<close>

definition scan_camera ::
  "('img, 'rep, 'score::linorder) imaging \<Rightarrow> 'score params \<Rightarrow> 'img folder \<Rightarrow> string list \<Rightarrow>
   nat list \<Rightarrow> 'rep option \<Rightarrow> error + ('rep option \<times> nat list)" where
  "scan_camera im ps entries Image_files img_indices prev_frame =
     (case img_indices of
        [] \<Rightarrow> Inr (prev_frame, [])
      | first # _ \<Rightarrow> scan_indices im ps entries Image_files first img_indices (prev_frame, []))"

text \<open>The outer loop; the state is \<^verbatim>\<open>prev_frame\<close> and \<^verbatim>\<open>non_essential_data\<close>.\<close>

fun scan_cameras ::
  "('img, 'rep, 'score::linorder) imaging \<Rightarrow> 'score params \<Rightarrow> 'img folder \<Rightarrow> string list \<Rightarrow>
   (string \<times> nat list) list \<Rightarrow> 'rep option \<times> (string \<times> nat list) list \<Rightarrow>
   error + ('rep option \<times> (string \<times> nat list) list)" where
  "scan_cameras im ps entries Image_files [] st = Inr st"
| "scan_cameras im ps entries Image_files ((camera_id, img_indices) # rest) st =
     (case st of (prev_frame, non_essential_data) \<Rightarrow>
      case scan_camera im ps entries Image_files img_indices prev_frame of
        Inl e \<Rightarrow> Inl e
      | Inr (prev_frame', remove_indices) \<Rightarrow>
          scan_cameras im ps entries Image_files rest
            (prev_frame', AList.update camera_id remove_indices non_essential_data))"

text \<open>Lines 82 to 111: grouping, then the decision loop from an unassigned \<^verbatim>\<open>prev_frame\<close>.\<close>

definition find_non_essential ::
  "('img, 'rep, 'score::linorder) imaging \<Rightarrow> 'score params \<Rightarrow> 'img folder option \<Rightarrow>
   error + ((string \<times> nat list) list \<times> string list)" where
  "find_non_essential im ps fo =
     (case get_camera_id_indices fo of
        Inl e \<Rightarrow> Inl e
      | Inr (camera_id_indices, Image_files) \<Rightarrow>
         (case scan_cameras im ps (case fo of None \<Rightarrow> [] | Some entries \<Rightarrow> entries)
                 Image_files camera_id_indices (None, []) of
            Inl e \<Rightarrow> Inl e
          | Inr (prev_frame, non_essential_data) \<Rightarrow> Inr (non_essential_data, Image_files)))"

section \<open>The removal pass: \<^verbatim>\<open>remove_ids\<close>\<close>

text \<open>
  \<^verbatim>\<open>os.remove\<close> raises for a file, or a folder, that is not there, and for an
  entry it cannot delete; otherwise the entry is gone afterwards.
\<close>

definition os_remove :: "string \<Rightarrow> 'img world \<Rightarrow> error option \<times> 'img world" where
  "os_remove name w =
     (case folder w of
        None \<Rightarrow> (Some FileNotFoundError, w)
      | Some entries \<Rightarrow>
          if name \<notin> set (listdir entries) then (Some FileNotFoundError, w)
          else (case map_of (remove_errors w) name of
                  Some e \<Rightarrow> (Some e, w)
                | None \<Rightarrow>
                    (None, w\<lparr>folder := Some (filter (\<lambda>entry. fst entry \<noteq> name) entries),
                               deleted := deleted w @ [name]\<rparr>)))"

text \<open>The inner loop; it returns the count, or the error with the world as it was left.\<close>

fun remove_files ::
  "string list \<Rightarrow> nat list \<Rightarrow> nat \<Rightarrow> 'img world \<Rightarrow> (error + nat) \<times> 'img world" where
  "remove_files Image_files [] count w = (Inr count, w)"
| "remove_files Image_files (img_index # rest) count w =
     (case getitem Image_files img_index of
        Inl e \<Rightarrow> (Inl e, w)
      | Inr file_name \<Rightarrow>
         (case os_remove file_name w of
            (Some e, w') \<Rightarrow> (Inl e, w')
          | (None, w') \<Rightarrow> remove_files Image_files rest (count + 1) w'))"

definition report_line :: "string \<Rightarrow> nat \<Rightarrow> string" where
  "report_line camera_id count =
     ''In camera:'' @ camera_id @ '' total '' @ str_nat count @ '' images are repeated.''"

definition print :: "string \<Rightarrow> 'img world \<Rightarrow> 'img world" where
  "print line w = w\<lparr>stdout := stdout w @ [line]\<rparr>"

fun remove_ids ::
  "(string \<times> nat list) list \<Rightarrow> string list \<Rightarrow> 'img world \<Rightarrow> error option \<times> 'img world" where
  "remove_ids [] Image_files w = (None, w)"
| "remove_ids ((camera_id, remove_indices) # rest) Image_files w =
     (case remove_files Image_files remove_indices 0 w of
        (Inl e, w') \<Rightarrow> (Some e, w')
      | (Inr count, w') \<Rightarrow> remove_ids rest Image_files (print (report_line camera_id count) w'))"

section \<open>\<^verbatim>\<open>remove_duplicates\<close>\<close>

definition remove_duplicates ::
  "('img, 'rep, 'score::linorder) imaging \<Rightarrow> 'score params \<Rightarrow> 'img world \<Rightarrow>
   error option \<times> 'img world" where
  "remove_duplicates im ps w =
     (case find_non_essential im ps (folder w) of
        Inl e \<Rightarrow> (Some e, w)
      | Inr (non_essential_data, Image_files) \<Rightarrow>
          if non_essential_data \<noteq> [] then remove_ids non_essential_data Image_files w
          else (None, w))"

section \<open>What a run is expected to leave behind\<close>

text \<open>
  Lines 50 to 53 for one name: the camera identifier a name contributes, and whether it
  contributes one.
\<close>

definition camera_id_of :: "string \<Rightarrow> string" where
  "camera_id_of file_name =
     (if CHR ''-'' \<in> set file_name then split_head CHR ''-'' file_name
      else split_head CHR ''_'' file_name)"

definition separated :: "string \<Rightarrow> bool" where
  "separated file_name \<longleftrightarrow> CHR ''-'' \<in> set file_name \<or> CHR ''_'' \<in> set file_name"

text \<open>The report: one line for each entry of the removal mapping, in its order.\<close>

definition report :: "(string \<times> nat list) list \<Rightarrow> string list" where
  "report non_essential_data =
     map (\<lambda>(camera_id, remove_indices). report_line camera_id (length remove_indices))
       non_essential_data"

text \<open>The names to delete: camera after camera, each camera's indices in list order.\<close>

definition removal_order :: "string list \<Rightarrow> (string \<times> nat list) list \<Rightarrow> string list" where
  "removal_order Image_files non_essential_data =
     concat (map (\<lambda>(camera_id, remove_indices). map ((!) Image_files) remove_indices)
               non_essential_data)"

section \<open>Example collaborators\<close>

text \<open>The default arguments of \<^verbatim>\<open>remove_duplicates\<close>.\<close>

definition default_params :: "int params" where
  "default_params =
     \<lparr>gaussian_blur_radius_list = [3, 5, 7], min_contour_area = 2000, min_score = 25000\<rparr>"

text \<open>
  A comparator for the examples: an image is one brightness value, preprocessing keeps
  it, every representation has the shape (1, 1), and the score of two representations is
  the distance of their values.
\<close>

definition brightness_imaging :: "(int, int, int) imaging" where
  "brightness_imaging =
     \<lparr>preprocess_image_change_detection = (\<lambda>image radii. image),
      shape = (\<lambda>frame. (1, 1)),
      resize = (\<lambda>frame size. frame),
      compare_frames_change_detection = (\<lambda>prev_frame next_frame area. \<bar>prev_frame - next_frame\<bar>)\<rparr>"


section \<open>Facts about grouping\<close>

lemma sorted_wrt_subseq:
  "subseq ys xs \<Longrightarrow> sorted_wrt R xs \<Longrightarrow> sorted_wrt R ys"
proof (induction ys xs rule: list_emb.induct)
  case (list_emb_Nil ys)
  then show ?case by simp
next
  case (list_emb_Cons xs ys y)
  then show ?case by simp
next
  case (list_emb_Cons2 x y xs ys)
  have "set xs \<subseteq> set ys"
    using list_emb_Cons2.hyps(2) by (auto dest: list_emb_set)
  with list_emb_Cons2 show ?case by auto
qed

lemma indices_of_sorted: "sorted_wrt (<) (indices_of ids files)"
proof -
  have "sorted_wrt (\<lambda>p q. fst p < fst q) (enumerate 0 files) =
        sorted_wrt (<) (map fst (enumerate 0 files))"
    by (rule sorted_wrt_map [symmetric])
  then have "sorted_wrt (\<lambda>p q. fst p < fst q) (enumerate 0 files)"
    by simp
  then have "sorted_wrt (\<lambda>p q. fst p < fst q)
               (filter (\<lambda>(index, filename). startswith filename ids) (enumerate 0 files))"
    by (rule sorted_wrt_filter)
  then show ?thesis
    by (simp add: indices_of_def sorted_wrt_map)
qed

lemma set_indices_of:
  "set (indices_of ids files) = {i. i < length files \<and> startswith (files ! i) ids}"
  by (auto simp: indices_of_def in_set_enumerate_eq image_iff)

lemma update_fresh: "k \<notin> fst ` set al \<Longrightarrow> AList.update k v al = al @ [(k, v)]"
  by (induction al) auto

lemma fill_camera_id_indices_eq:
  "distinct ids \<Longrightarrow> set ids \<inter> fst ` set d = {} \<Longrightarrow>
   fill_camera_id_indices ids files d = d @ map (\<lambda>c. (c, indices_of c files)) ids"
proof (induction ids arbitrary: d)
  case Nil
  then show ?case by simp
next
  case (Cons c cs)
  have fresh: "c \<notin> fst ` set d" using Cons.prems by auto
  have "set cs \<inter> fst ` set (d @ [(c, indices_of c files)]) = {}"
    using Cons.prems by auto
  with Cons show ?case by (simp add: update_fresh [OF fresh])
qed

lemma get_camera_id_indices_Some:
  "get_camera_id_indices (Some entries) =
     Inr (map (\<lambda>c. (c, indices_of c (image_files entries)))
            (sorted_list_of_set (collect_camera_ids (image_files entries) {})),
          image_files entries)"
  by (simp add: get_camera_id_indices_def Let_def fill_camera_id_indices_eq)

lemma get_camera_id_indices_Inr:
  assumes "get_camera_id_indices fo = Inr (cams, files)"
  obtains entries where "fo = Some entries" "files = image_files entries"
    "cams = map (\<lambda>c. (c, indices_of c files))
              (sorted_list_of_set (collect_camera_ids files {}))"
proof (cases fo)
  case None
  with assms show ?thesis by (simp add: get_camera_id_indices_def)
next
  case (Some entries)
  with assms that [of entries] show ?thesis by (auto simp: get_camera_id_indices_Some)
qed

text \<open>
  Every name with a separator is in the list of its own camera. It is in no other list
  as long as no identifier is a prefix of a name of another camera.
\<close>

lemma collect_camera_ids_eq:
  "collect_camera_ids files ids = ids \<union> camera_id_of ` {f \<in> set files. separated f}"
  by (induction files arbitrary: ids) (auto simp: camera_id_of_def separated_def)

lemma finite_collect_camera_ids: "finite (collect_camera_ids files {})"
  by (simp add: collect_camera_ids_eq)

lemma camera_id_of_prefix: "startswith file_name (camera_id_of file_name)"
  by (simp add: startswith_def camera_id_of_def split_head_def takeWhile_is_prefix)

lemma grouping_cameras:
  assumes "get_camera_id_indices fo = Inr (cams, files)"
  shows "set cams = (\<lambda>c. (c, indices_of c files)) ` camera_id_of ` {f \<in> set files. separated f}"
proof -
  from assms obtain entries where
    cams: "cams = map (\<lambda>c. (c, indices_of c files))
                    (sorted_list_of_set (collect_camera_ids files {}))"
    by (rule get_camera_id_indices_Inr)
  show ?thesis
    by (simp add: cams finite_collect_camera_ids) (simp add: collect_camera_ids_eq)
qed

lemma grouping_covers:
  assumes "get_camera_id_indices fo = Inr (cams, files)"
    and "i < length files" and "separated (files ! i)"
  shows "(camera_id_of (files ! i), indices_of (camera_id_of (files ! i)) files) \<in> set cams"
    and "i \<in> set (indices_of (camera_id_of (files ! i)) files)"
proof -
  show "(camera_id_of (files ! i), indices_of (camera_id_of (files ! i)) files) \<in> set cams"
    using assms(2,3) by (auto simp: grouping_cameras [OF assms(1)])
  show "i \<in> set (indices_of (camera_id_of (files ! i)) files)"
    using assms(2) by (simp add: set_indices_of camera_id_of_prefix)
qed

lemma grouping_exclusive:
  assumes "get_camera_id_indices fo = Inr (cams, files)"
    and "\<forall>f \<in> set files. \<forall>g \<in> set files. separated f \<and> separated g \<and>
           startswith g (camera_id_of f) \<longrightarrow> camera_id_of g = camera_id_of f"
    and "i < length files" and "separated (files ! i)"
    and "(c, idxs) \<in> set cams" and "i \<in> set idxs"
  shows "c = camera_id_of (files ! i)"
proof -
  from assms(5) obtain f where f: "f \<in> set files" "separated f" "c = camera_id_of f"
    and idxs: "idxs = indices_of c files"
    by (auto simp: grouping_cameras [OF assms(1)])
  from assms(6) idxs have pre: "startswith (files ! i) (camera_id_of f)"
    by (simp add: set_indices_of f(3))
  have mem: "files ! i \<in> set files" using assms(3) by simp
  from assms(2) f(1) have "\<forall>g \<in> set files. separated f \<and> separated g \<and>
      startswith g (camera_id_of f) \<longrightarrow> camera_id_of g = camera_id_of f"
    by (rule bspec)
  from this mem have "separated f \<and> separated (files ! i) \<and>
      startswith (files ! i) (camera_id_of f) \<longrightarrow> camera_id_of (files ! i) = camera_id_of f"
    by (rule bspec)
  with f(2) assms(4) pre show ?thesis by (simp add: f(3))
qed

section \<open>Facts about the decision loop\<close>

lemma scan_image_unreadable:
  assumes "getitem Image_files img_index = Inr file_name"
    and "imread entries file_name = None"
  shows "scan_image im ps entries Image_files first img_index (prev_frame, remove_indices) =
           Inr (prev_frame, remove_indices @ [img_index])"
  using assms by (simp add: scan_image_def)


lemma scan_image_compare:
  assumes "getitem Image_files img_index = Inr file_name"
    and "imread entries file_name = Some read_image"
    and "img_index \<noteq> first"
  shows "scan_image im ps entries Image_files first img_index (Some prev, remove_indices) =
     (let next_frame = preprocess_image_change_detection im read_image
                         (gaussian_blur_radius_list ps);
          prev' = match_shape im prev next_frame
      in if compare_frames_change_detection im prev' next_frame (min_contour_area ps)
              < min_score ps
         then Inr (Some prev', remove_indices @ [img_index])
         else Inr (Some next_frame, remove_indices))"
  using assms by (simp add: scan_image_def Let_def)

lemma scan_image_grows:
  assumes "scan_image im ps entries Image_files first img_index (prev_frame, remove_indices) =
             Inr (prev_frame', remove_indices')"
  shows "remove_indices' = remove_indices \<or> remove_indices' = remove_indices @ [img_index]"
  using assms
  by (auto simp: scan_image_def Let_def split: sum.splits option.splits if_splits)

lemma scan_indices_grows:
  assumes "scan_indices im ps entries Image_files first img_indices (prev_frame, remove_indices) =
             Inr (prev_frame', remove_indices')"
  shows "\<exists>ys. remove_indices' = remove_indices @ ys \<and> subseq ys img_indices"
  using assms
proof (induction img_indices arbitrary: prev_frame remove_indices)
  case Nil
  then show ?case by simp
next
  case (Cons i rest)
  from Cons.prems obtain p r where
    step: "scan_image im ps entries Image_files first i (prev_frame, remove_indices) = Inr (p, r)"
    and tail: "scan_indices im ps entries Image_files first rest (p, r) =
                 Inr (prev_frame', remove_indices')"
    by (auto split: sum.splits)
  from Cons.IH [OF tail] obtain ys where
    ys: "remove_indices' = r @ ys" "subseq ys rest" by blast
  from scan_image_grows [OF step] show ?case
  proof
    assume "r = remove_indices"
    with ys show ?thesis by auto
  next
    assume "r = remove_indices @ [i]"
    with ys have "remove_indices' = remove_indices @ (i # ys)" "subseq (i # ys) (i # rest)"
      by simp_all
    then show ?thesis by blast
  qed
qed

lemma scan_camera_subseq:
  assumes "scan_camera im ps entries Image_files img_indices prev_frame =
             Inr (prev_frame', remove_indices)"
  shows "subseq remove_indices img_indices"
proof (cases img_indices)
  case Nil
  with assms show ?thesis by (simp add: scan_camera_def)
next
  case (Cons first rest)
  with assms have
    "scan_indices im ps entries Image_files first img_indices (prev_frame, []) =
       Inr (prev_frame', remove_indices)"
    by (simp add: scan_camera_def)
  from scan_indices_grows [OF this] show ?thesis by simp
qed

text \<open>The removal mapping has the cameras of the grouping, in the same order, each with
  a subsequence of its indices.\<close>

lemma scan_cameras_shape:
  assumes "scan_cameras im ps entries Image_files cams (prev_frame, ned) = Inr (prev_frame', ned')"
    and "distinct (map fst cams)"
    and "set (map fst cams) \<inter> fst ` set ned = {}"
  shows "\<exists>rss. ned' = ned @ zip (map fst cams) rss \<and> length rss = length cams \<and>
           list_all2 subseq rss (map snd cams)"
  using assms
proof (induction cams arbitrary: prev_frame ned)
  case Nil
  then show ?case by simp
next
  case (Cons cam rest)
  obtain c idxs where cam: "cam = (c, idxs)" by (cases cam)
  from Cons.prems(1) cam obtain p rs where
    one: "scan_camera im ps entries Image_files idxs prev_frame = Inr (p, rs)"
    and tail: "scan_cameras im ps entries Image_files rest (p, AList.update c rs ned) =
                 Inr (prev_frame', ned')"
    by (auto split: sum.splits)
  have fresh: "c \<notin> fst ` set ned" using Cons.prems(3) cam by auto
  have upd: "AList.update c rs ned = ned @ [(c, rs)]" by (rule update_fresh [OF fresh])
  have d: "distinct (map fst rest)" using Cons.prems(2) by simp
  have disj: "set (map fst rest) \<inter> fst ` set (ned @ [(c, rs)]) = {}"
    using Cons.prems(2,3) cam by auto
  from Cons.IH [OF tail [unfolded upd] d disj] obtain rss where
    rss: "ned' = (ned @ [(c, rs)]) @ zip (map fst rest) rss" "length rss = length rest"
         "list_all2 subseq rss (map snd rest)" by blast
  have "ned' = ned @ zip (map fst (cam # rest)) (rs # rss)"
    using rss(1) cam by simp
  moreover have "length (rs # rss) = length (cam # rest)" using rss(2) by simp
  moreover have "list_all2 subseq (rs # rss) (map snd (cam # rest))"
    using rss(3) scan_camera_subseq [OF one] cam by simp
  ultimately show ?case by blast
qed

section \<open>Facts about the removal pass\<close>

lemma os_remove_effect:
  assumes "os_remove name w = (e, w')"
  shows "stdout w' = stdout w \<and>
         (case e of None \<Rightarrow> deleted w' = deleted w @ [name] | Some x \<Rightarrow> deleted w' = deleted w)"
proof (cases "folder w")
  case None
  with assms show ?thesis by (auto simp: os_remove_def)
next
  case (Some entries)
  show ?thesis
  proof (cases "name \<in> set (listdir entries)")
    case False
    with assms Some show ?thesis by (auto simp: os_remove_def)
  next
    case True
    show ?thesis
    proof (cases "map_of (remove_errors w) name")
      case None
      with assms Some True show ?thesis by (auto simp: os_remove_def)
    next
      case (Some x)
      with assms \<open>folder w = Some entries\<close> True have "e = Some x" "w' = w"
        by (simp_all add: os_remove_def)
      then show ?thesis by simp
    qed
  qed
qed

lemma remove_files_ok:
  assumes "remove_files Image_files remove_indices count w = (Inr count', w')"
  shows "count' = count + length remove_indices \<and> stdout w' = stdout w \<and>
         deleted w' = deleted w @ map ((!) Image_files) remove_indices"
  using assms
proof (induction remove_indices arbitrary: count w)
  case Nil
  then show ?case by simp
next
  case (Cons i rest)
  from Cons.prems obtain name w1 where
    name: "getitem Image_files i = Inr name"
    and rm: "os_remove name w = (None, w1)"
    and tail: "remove_files Image_files rest (count + 1) w1 = (Inr count', w')"
    by (auto split: sum.splits prod.splits option.splits)
  from name have nth: "name = Image_files ! i"
    by (auto simp: getitem_def split: if_splits)
  from os_remove_effect [OF rm] have w1: "stdout w1 = stdout w" "deleted w1 = deleted w @ [name]"
    by simp_all
  from Cons.IH [OF tail] w1 nth show ?case by simp
qed

lemma remove_files_failed:
  assumes "remove_files Image_files remove_indices count w = (Inl e, w')"
  shows "stdout w' = stdout w \<and>
         (\<exists>k<length remove_indices.
            deleted w' = deleted w @ map ((!) Image_files) (take k remove_indices))"
  using assms
proof (induction remove_indices arbitrary: count w)
  case Nil
  then show ?case by simp
next
  case (Cons i rest)
  show ?case
  proof (cases "getitem Image_files i")
    case (Inl x)
    with Cons.prems have "w' = w" by simp
    then show ?thesis by auto
  next
    case (Inr name)
    then have nth: "name = Image_files ! i"
      by (auto simp: getitem_def split: if_splits)
    obtain r w1 where rm: "os_remove name w = (r, w1)" by (cases "os_remove name w")
    show ?thesis
    proof (cases r)
      case (Some x)
      with Cons.prems Inr rm have "w' = w1" by simp
      with os_remove_effect [OF rm] Some show ?thesis by auto
    next
      case None
      with Cons.prems Inr rm have
        tail: "remove_files Image_files rest (count + 1) w1 = (Inl e, w')" by simp
      from os_remove_effect [OF rm] None have
        w1: "stdout w1 = stdout w" "deleted w1 = deleted w @ [name]" by simp_all
      from Cons.IH [OF tail] obtain k where
        k: "k < length rest" "deleted w' = deleted w1 @ map ((!) Image_files) (take k rest)"
        and out: "stdout w' = stdout w1" by blast
      have "Suc k < length (i # rest)" using k(1) by simp
      moreover have "deleted w' = deleted w @ map ((!) Image_files) (take (Suc k) (i # rest))"
        using k(2) w1 nth by simp
      ultimately have "\<exists>j<length (i # rest).
          deleted w' = deleted w @ map ((!) Image_files) (take j (i # rest))" by blast
      moreover have "stdout w' = stdout w" using out w1 by simp
      ultimately show ?thesis by simp
    qed
  qed
qed

lemma remove_ids_ok:
  assumes "remove_ids ned Image_files w = (None, w')"
  shows "stdout w' = stdout w @ report ned \<and>
         deleted w' = deleted w @ removal_order Image_files ned"
  using assms
proof (induction ned arbitrary: w)
  case Nil
  then show ?case by (simp add: report_def removal_order_def)
next
  case (Cons cam rest)
  obtain c rs where cam: "cam = (c, rs)" by (cases cam)
  from Cons.prems cam obtain n w1 where
    one: "remove_files Image_files rs 0 w = (Inr n, w1)"
    and tail: "remove_ids rest Image_files (print (report_line c n) w1) = (None, w')"
    by (auto split: prod.splits sum.splits)
  from remove_files_ok [OF one] have
    w1: "n = length rs" "stdout w1 = stdout w" "deleted w1 = deleted w @ map ((!) Image_files) rs"
    by simp_all
  from Cons.IH [OF tail] w1 cam show ?case
    by (simp add: print_def report_def removal_order_def)
qed

lemma remove_ids_prefix:
  assumes "remove_ids ned Image_files w = (e, w')"
  shows "prefix (deleted w') (deleted w @ removal_order Image_files ned)"
  using assms
proof (induction ned arbitrary: w)
  case Nil
  then show ?case by (simp add: removal_order_def)
next
  case (Cons cam rest)
  obtain c rs where cam: "cam = (c, rs)" by (cases cam)
  obtain r w1 where one: "remove_files Image_files rs 0 w = (r, w1)"
    by (cases "remove_files Image_files rs 0 w")
  show ?case
  proof (cases r)
    case (Inl x)
    with Cons.prems cam one have "w' = w1" by simp
    moreover from remove_files_failed [OF one [unfolded Inl]] obtain k where
      "deleted w1 = deleted w @ map ((!) Image_files) (take k rs)" by blast
    moreover have "prefix (map ((!) Image_files) (take k rs)) (map ((!) Image_files) rs)"
      by (simp add: map_mono_prefix take_is_prefix)
    ultimately show ?thesis
      using cam by (simp add: removal_order_def prefix_def) (metis append.assoc)
  next
    case (Inr n)
    with Cons.prems cam one have
      tail: "remove_ids rest Image_files (print (report_line c n) w1) = (e, w')" by simp
    from remove_files_ok [OF one [unfolded Inr]] have
      "deleted w1 = deleted w @ map ((!) Image_files) rs" by simp
    with Cons.IH [OF tail] cam show ?thesis
      by (simp add: print_def removal_order_def)
  qed
qed

lemma remove_ids_stdout_prefix:
  assumes "remove_ids ned Image_files w = (e, w')"
  shows "prefix (stdout w') (stdout w @ report ned)"
  using assms
proof (induction ned arbitrary: w)
  case Nil
  then show ?case by (simp add: report_def)
next
  case (Cons cam rest)
  obtain c rs where cam: "cam = (c, rs)" by (cases cam)
  obtain r w1 where one: "remove_files Image_files rs 0 w = (r, w1)"
    by (cases "remove_files Image_files rs 0 w")
  show ?case
  proof (cases r)
    case (Inl x)
    with Cons.prems cam one have "w' = w1" by simp
    with remove_files_failed [OF one [unfolded Inl]] show ?thesis by simp
  next
    case (Inr n)
    with Cons.prems cam one have
      tail: "remove_ids rest Image_files (print (report_line c n) w1) = (e, w')" by simp
    from remove_files_ok [OF one [unfolded Inr]] have
      "n = length rs" "stdout w1 = stdout w" by simp_all
    with Cons.IH [OF tail] cam show ?thesis
      by (simp add: print_def report_def)
  qed
qed

section \<open>Facts about a whole run\<close>

lemma grouping_keys:
  assumes "get_camera_id_indices fo = Inr (cams, files)"
  shows "sorted_wrt (<) (map fst cams)" and "distinct (map fst cams)"
    and "\<forall>(c, idxs) \<in> set cams. idxs = indices_of c files"
proof -
  from assms obtain entries where
    cams: "cams = map (\<lambda>c. (c, indices_of c files))
                    (sorted_list_of_set (collect_camera_ids files {}))"
    by (rule get_camera_id_indices_Inr)
  have keys: "map fst cams = sorted_list_of_set (collect_camera_ids files {})"
    by (simp add: cams comp_def)
  show "sorted_wrt (<) (map fst cams)" by (simp add: keys)
  show "distinct (map fst cams)" by (simp add: keys)
  show "\<forall>(c, idxs) \<in> set cams. idxs = indices_of c files" by (auto simp: cams)
qed

lemma scan_cameras_keys:
  assumes "scan_cameras im ps entries Image_files cams (prev_frame, []) = Inr (prev_frame', ned)"
    and "distinct (map fst cams)"
  shows "map fst ned = map fst cams"
    and "\<forall>(c, rs) \<in> set ned. \<exists>idxs. (c, idxs) \<in> set cams \<and> subseq rs idxs"
proof -
  from scan_cameras_shape [OF assms] obtain rss where
    ned: "ned = zip (map fst cams) rss" and len: "length rss = length cams"
    and sub: "list_all2 subseq rss (map snd cams)" by auto
  show "map fst ned = map fst cams" by (simp add: ned len)
  show "\<forall>(c, rs) \<in> set ned. \<exists>idxs. (c, idxs) \<in> set cams \<and> subseq rs idxs"
  proof (clarify)
    fix c rs assume "(c, rs) \<in> set ned"
    then obtain i where i: "i < length cams" "c = fst (cams ! i)" "rs = rss ! i"
      by (auto simp: ned len in_set_zip)
    from sub i(1) len have "subseq (rss ! i) (map snd cams ! i)"
      by (simp add: list_all2_conv_all_nth)
    with i(1) have "subseq (rss ! i) (snd (cams ! i))" by simp
    moreover have "(fst (cams ! i), snd (cams ! i)) \<in> set cams" using i(1) by simp
    ultimately show "\<exists>idxs. (c, idxs) \<in> set cams \<and> subseq rs idxs" using i by blast
  qed
qed

text \<open>
  The outer loop visits the cameras from left to right: each camera is scanned from the
  \<^verbatim>\<open>prev_frame\<close> the cameras before it left, and its removal list is entered after
  theirs.
\<close>

lemma scan_cameras_append:
  "scan_cameras im ps entries Image_files (before @ after) st =
     (case scan_cameras im ps entries Image_files before st of
        Inl x \<Rightarrow> Inl x
      | Inr st' \<Rightarrow> scan_cameras im ps entries Image_files after st')"
proof (induction before arbitrary: st)
  case Nil
  then show ?case by simp
next
  case (Cons cam rest)
  obtain c idxs where cam: "cam = (c, idxs)" by (cases cam)
  obtain prev_frame ned where st: "st = (prev_frame, ned)" by (cases st)
  show ?case
    by (simp add: cam st Cons.IH split: sum.splits prod.splits)
qed

lemma scan_cameras_in_turn:
  assumes "distinct (map fst (before @ (camera_id, img_indices) # after))"
  shows "scan_cameras im ps entries Image_files (before @ (camera_id, img_indices) # after)
           (None, []) =
     (case scan_cameras im ps entries Image_files before (None, []) of
        Inl x \<Rightarrow> Inl x
      | Inr (prev_frame, found) \<Rightarrow>
          (case scan_camera im ps entries Image_files img_indices prev_frame of
             Inl x \<Rightarrow> Inl x
           | Inr (prev_frame', remove_indices) \<Rightarrow>
               scan_cameras im ps entries Image_files after
                 (prev_frame', found @ [(camera_id, remove_indices)])))"
proof (cases "scan_cameras im ps entries Image_files before (None, [])")
  case (Inl x)
  then show ?thesis by (simp add: scan_cameras_append)
next
  case (Inr st)
  obtain prev_frame found where st: "st = (prev_frame, found)" by (cases st)
  have d: "distinct (map fst before)" using assms by simp
  have "map fst found = map fst before"
    by (rule scan_cameras_keys(1) [OF Inr [unfolded st] d])
  then have "fst ` set found = fst ` set before" by (metis set_map)
  with assms have fresh: "camera_id \<notin> fst ` set found" by auto
  show ?thesis
    by (simp add: scan_cameras_append Inr st update_fresh [OF fresh]
          split: sum.splits prod.splits)
qed

section \<open>First-frame retention and isolation of cameras\<close>

text \<open>
  Claim C1: the earliest decodable frame of a camera is never marked non-essential. The
  loop installs the reference only at the camera's first index (line 92). With two
  cameras, the second one starting with an unreadable file, the first decodable frame of
  the second camera (index 2) is scored against the frame left by the first camera and
  marked.
\<close>

theorem first_decodable_frame_marked:
  "find_non_essential brightness_imaging default_params
     (Some [(''a-1.png'', Some 0), (''b-1.png'', None), (''b-2.png'', Some 0)]) =
   Inr ([(''a'', []), (''b'', [1, 2])], [''a-1.png'', ''b-1.png'', ''b-2.png''])"
  by code_simp

text \<open>
  Claim C2: the removals of one camera do not depend on the files of another. Two folders
  that differ only in the content of camera \<open>a\<close>'s file give camera \<open>b\<close> different removal
  lists, since \<^verbatim>\<open>prev_frame\<close> is carried from one camera to the next.
\<close>

theorem other_camera_changes_removals:
  "find_non_essential brightness_imaging default_params
     (Some [(''a-1.png'', Some 0), (''b-1.png'', None), (''b-2.png'', Some 0)]) =
   Inr ([(''a'', []), (''b'', [1, 2])], [''a-1.png'', ''b-1.png'', ''b-2.png'']) \<and>
   find_non_essential brightness_imaging default_params
     (Some [(''a-1.png'', Some 30000), (''b-1.png'', None), (''b-2.png'', Some 0)]) =
   Inr ([(''a'', []), (''b'', [1])], [''a-1.png'', ''b-1.png'', ''b-2.png''])"
  by code_simp

text \<open>
  Claim C5: a decode failure never aborts the scan, wherever it occurs. The failed load
  itself only appends the index (\<open>scan_image_unreadable\<close>); when it is the first file of
  the first camera, the next decodable frame reads \<^verbatim>\<open>prev_frame\<close> before any assignment
  and the exception leaves the loop.
\<close>

theorem unreadable_first_frame_aborts:
  "find_non_essential brightness_imaging default_params
     (Some [(''a-1.png'', None), (''a-2.png'', Some 0)]) = Inl UnboundLocalError"
  by code_simp

section \<open>Grouping by prefix\<close>

text \<open>
  Claim C4: the index lists partition the indices. Both names use the separator \<open>-\<close>;
  the identifier \<open>c1\<close> is a prefix of the name of camera \<open>c10\<close>, whose index 1 is in both
  lists.
\<close>

theorem prefix_cameras_overlap:
  "get_camera_id_indices (Some [(''c1-1.png'', Some (0::int)), (''c10-1.png'', Some 0)]) =
   Inr ([(''c1'', [0, 1]), (''c10'', [1])], [''c1-1.png'', ''c10-1.png''])"
  by code_simp

section \<open>The report\<close>

text \<open>
  Claim C3, as stated: a camera with an empty removal list produces no report line, and
  with one camera of 2 removals and another of 0 exactly one line is printed. The run
  below has such a pair and prints two lines.
\<close>

theorem empty_removal_list_is_reported:
  "find_non_essential brightness_imaging default_params
     (Some [(''a-1.png'', Some 0), (''a-2.png'', Some 0), (''a-3.png'', Some 0),
            (''b-1.png'', Some 0)]) =
   Inr ([(''a'', [1, 2]), (''b'', [])], [''a-1.png'', ''a-2.png'', ''a-3.png'', ''b-1.png'']) \<and>
   remove_duplicates brightness_imaging default_params
     \<lparr>folder = Some [(''a-1.png'', Some 0), (''a-2.png'', Some 0), (''a-3.png'', Some 0),
                      (''b-1.png'', Some 0)],
      stdout = [], deleted = [], remove_errors = []\<rparr> =
   (None,
    \<lparr>folder = Some [(''a-1.png'', Some 0), (''b-1.png'', Some 0)],
     stdout = [''In camera:a total 2 images are repeated.'',
               ''In camera:b total 0 images are repeated.''],
     deleted = [''a-2.png'', ''a-3.png''], remove_errors = []\<rparr>)"
  by code_simp

lemma removal_order_nonempty:
  "removal_order Image_files (filter (\<lambda>(camera_id, remove_indices). remove_indices \<noteq> []) ned) =
   removal_order Image_files ned"
  by (induction ned) (auto simp: removal_order_def)

text \<open>
  Claim C3, as amended: a removal pass that succeeds prints exactly one line for each
  camera of the removal mapping, in its order and with the length of the camera's
  removal list as the count, a camera with an empty list included; only the cameras with
  a list that is not empty contribute to the files deleted.
\<close>

theorem report_line_for_every_camera:
  assumes "remove_ids non_essential_data Image_files w = (None, w')"
  shows "stdout w' = stdout w @ report non_essential_data \<and>
         length (stdout w') = length (stdout w) + length non_essential_data \<and>
         deleted w' = deleted w @
           removal_order Image_files
             (filter (\<lambda>(camera_id, remove_indices). remove_indices \<noteq> []) non_essential_data)"
proof -
  from remove_ids_ok [OF assms] have
    out: "stdout w' = stdout w @ report non_essential_data" and
    del: "deleted w' = deleted w @ removal_order Image_files non_essential_data"
    by simp_all
  from out have "length (stdout w') = length (stdout w) + length non_essential_data"
    by (simp add: report_def)
  with out del show ?thesis by (simp add: removal_order_nonempty)
qed

theorem report_line_for_every_camera_witness:
  "remove_ids [(''a'', [1, 2]), (''b'', [])] [''a-1.png'', ''a-2.png'', ''a-3.png'', ''b-1.png'']
     \<lparr>folder = Some [(''a-1.png'', Some (0::int)), (''a-2.png'', Some 0),
                      (''a-3.png'', Some 0), (''b-1.png'', Some 0)],
      stdout = [], deleted = [], remove_errors = []\<rparr> =
   (None,
    \<lparr>folder = Some [(''a-1.png'', Some 0), (''b-1.png'', Some 0)],
     stdout = [''In camera:a total 2 images are repeated.'',
               ''In camera:b total 0 images are repeated.''],
     deleted = [''a-2.png'', ''a-3.png''], remove_errors = []\<rparr>) \<and>
   [''In camera:a total 2 images are repeated.'', ''In camera:b total 0 images are repeated.''] =
     report [(''a'', [1, 2]), (''b'', [])] \<and>
   [''a-2.png'', ''a-3.png''] =
     removal_order [''a-1.png'', ''a-2.png'', ''a-3.png'', ''b-1.png'']
       (filter (\<lambda>(camera_id, remove_indices). remove_indices \<noteq> [])
          [(''a'', [1, 2]), (''b'', [])])"
proof -
  have run: "remove_ids [(''a'', [1, 2]), (''b'', [])]
      [''a-1.png'', ''a-2.png'', ''a-3.png'', ''b-1.png'']
      \<lparr>folder = Some [(''a-1.png'', Some (0::int)), (''a-2.png'', Some 0),
                       (''a-3.png'', Some 0), (''b-1.png'', Some 0)],
       stdout = [], deleted = [], remove_errors = []\<rparr> =
    (None,
     \<lparr>folder = Some [(''a-1.png'', Some 0), (''b-1.png'', Some 0)],
      stdout = [''In camera:a total 2 images are repeated.'',
                ''In camera:b total 0 images are repeated.''],
      deleted = [''a-2.png'', ''a-3.png''], remove_errors = []\<rparr>)"
    by code_simp
  have "[''In camera:a total 2 images are repeated.'',
         ''In camera:b total 0 images are repeated.''] =
          report [(''a'', [1, 2]), (''b'', [])] \<and>
        [''a-2.png'', ''a-3.png''] =
          removal_order [''a-1.png'', ''a-2.png'', ''a-3.png'', ''b-1.png'']
            (filter (\<lambda>(camera_id, remove_indices). remove_indices \<noteq> [])
               [(''a'', [1, 2]), (''b'', [])])"
    using report_line_for_every_camera [OF run] by simp
  with run show ?thesis by (rule conjI)
qed

section \<open>The decision rule\<close>

text \<open>
  Claim C6: when a decodable frame that is not at the camera's first index is compared
  with the reference, a score equal to \<^verbatim>\<open>min_score\<close> (or above it) retains the frame,
  which becomes the reference, and a score below \<^verbatim>\<open>min_score\<close> marks it non-essential.
\<close>

theorem threshold_is_inclusive:
  assumes "getitem Image_files img_index = Inr file_name"
    and "imread entries file_name = Some read_image"
    and "img_index \<noteq> first"
    and "next_frame = preprocess_image_change_detection im read_image
                        (gaussian_blur_radius_list ps)"
    and "score = compare_frames_change_detection im (match_shape im prev next_frame) next_frame
                   (min_contour_area ps)"
  shows "(score = min_score ps \<longrightarrow>
            scan_image im ps entries Image_files first img_index (Some prev, remove_indices) =
              Inr (Some next_frame, remove_indices)) \<and>
         (score < min_score ps \<longrightarrow>
            scan_image im ps entries Image_files first img_index (Some prev, remove_indices) =
              Inr (Some (match_shape im prev next_frame), remove_indices @ [img_index])) \<and>
         (min_score ps \<le> score \<longrightarrow>
            scan_image im ps entries Image_files first img_index (Some prev, remove_indices) =
              Inr (Some next_frame, remove_indices))"
  using assms by (auto simp: scan_image_compare Let_def)

theorem threshold_is_inclusive_witness:
  "scan_image brightness_imaging default_params
     [(''a-1.png'', Some 0), (''a-2.png'', Some 25000)] [''a-1.png'', ''a-2.png'']
     0 1 (Some 0, []) = Inr (Some 25000, []) \<and>
   scan_image brightness_imaging default_params
     [(''a-1.png'', Some 0), (''a-2.png'', Some 24999)] [''a-1.png'', ''a-2.png'']
     0 1 (Some 0, []) = Inr (Some 0, [1])"
proof -
  have name: "getitem [''a-1.png'', ''a-2.png''] 1 = Inr ''a-2.png''"
    by (simp add: getitem_def)
  have neq: "(1::nat) \<noteq> 0" by simp
  have at: "imread [(''a-1.png'', Some (0::int)), (''a-2.png'', Some 25000)] ''a-2.png'' = Some 25000"
    by (simp add: imread_def)
  have below: "imread [(''a-1.png'', Some (0::int)), (''a-2.png'', Some 24999)] ''a-2.png'' = Some 24999"
    by (simp add: imread_def)
  have "scan_image brightness_imaging default_params
     [(''a-1.png'', Some 0), (''a-2.png'', Some 25000)] [''a-1.png'', ''a-2.png'']
     0 1 (Some 0, []) = Inr (Some 25000, [])"
    using threshold_is_inclusive [OF name at neq refl refl,
        where im = brightness_imaging and ps = default_params and prev = 0
          and remove_indices = "[]"]
    by (simp add: brightness_imaging_def default_params_def match_shape_def)
  moreover have "scan_image brightness_imaging default_params
     [(''a-1.png'', Some 0), (''a-2.png'', Some 24999)] [''a-1.png'', ''a-2.png'']
     0 1 (Some 0, []) = Inr (Some 0, [1])"
    using threshold_is_inclusive [OF name below neq refl refl,
        where im = brightness_imaging and ps = default_params and prev = 0
          and remove_indices = "[]"]
    by (simp add: brightness_imaging_def default_params_def match_shape_def)
  ultimately show ?thesis by simp
qed




section \<open>Order of indices, cameras and deletions\<close>

text \<open>
  Claim C8: every camera's index list is strictly increasing; the removal list the
  decision loop builds for a camera is a subsequence of that list, hence strictly
  increasing too; and the removal pass deletes the files camera after camera in the order
  of each removal list: the deletions made are a prefix of that sequence, and all of it
  when the pass ends without an error.
\<close>

theorem ascending_indices_and_deletions:
  assumes "get_camera_id_indices fo = Inr (camera_id_indices, Image_files)"
    and "scan_cameras im ps entries Image_files camera_id_indices (prev_frame, []) =
           Inr (prev_frame', non_essential_data)"
    and "remove_ids non_essential_data Image_files w = (e, w')"
  shows "(\<forall>(camera_id, img_indices) \<in> set camera_id_indices. sorted_wrt (<) img_indices) \<and>
         (\<forall>(camera_id, remove_indices) \<in> set non_essential_data.
            sorted_wrt (<) remove_indices \<and>
            (\<exists>img_indices. (camera_id, img_indices) \<in> set camera_id_indices \<and>
                           subseq remove_indices img_indices)) \<and>
         prefix (deleted w') (deleted w @ removal_order Image_files non_essential_data) \<and>
         (e = None \<longrightarrow>
            deleted w' = deleted w @ removal_order Image_files non_essential_data)"
proof -
  have asc: "\<forall>(camera_id, img_indices) \<in> set camera_id_indices. sorted_wrt (<) img_indices"
    using grouping_keys(3) [OF assms(1)] by (auto simp: indices_of_sorted)
  have "\<forall>(camera_id, remove_indices) \<in> set non_essential_data.
          \<exists>img_indices. (camera_id, img_indices) \<in> set camera_id_indices \<and>
                         subseq remove_indices img_indices"
    by (rule scan_cameras_keys(2) [OF assms(2) grouping_keys(2) [OF assms(1)]])
  with asc have rem: "\<forall>(camera_id, remove_indices) \<in> set non_essential_data.
            sorted_wrt (<) remove_indices \<and>
            (\<exists>img_indices. (camera_id, img_indices) \<in> set camera_id_indices \<and>
                           subseq remove_indices img_indices)"
    by (fastforce intro: sorted_wrt_subseq)
  have pre: "prefix (deleted w') (deleted w @ removal_order Image_files non_essential_data)"
    by (rule remove_ids_prefix [OF assms(3)])
  have "e = None \<longrightarrow> deleted w' = deleted w @ removal_order Image_files non_essential_data"
    using assms(3) by (auto dest: remove_ids_ok)
  with asc rem pre show ?thesis by blast
qed

theorem ascending_indices_and_deletions_witness:
  "get_camera_id_indices
     (Some [(''a-1.png'', Some (0::int)), (''a-2.png'', Some 0), (''a-3.png'', Some 0),
            (''b-1.png'', Some 0)]) =
     Inr ([(''a'', [0, 1, 2]), (''b'', [3])],
          [''a-1.png'', ''a-2.png'', ''a-3.png'', ''b-1.png'']) \<and>
   scan_cameras brightness_imaging default_params
     [(''a-1.png'', Some 0), (''a-2.png'', Some 0), (''a-3.png'', Some 0), (''b-1.png'', Some 0)]
     [''a-1.png'', ''a-2.png'', ''a-3.png'', ''b-1.png'']
     [(''a'', [0, 1, 2]), (''b'', [3])] (None, []) =
     Inr (Some 0, [(''a'', [1, 2]), (''b'', [])]) \<and>
   remove_ids [(''a'', [1, 2]), (''b'', [])] [''a-1.png'', ''a-2.png'', ''a-3.png'', ''b-1.png'']
     \<lparr>folder = Some [(''a-1.png'', Some (0::int)), (''a-2.png'', Some 0),
                      (''a-3.png'', Some 0), (''b-1.png'', Some 0)],
      stdout = [], deleted = [], remove_errors = []\<rparr> =
   (None,
    \<lparr>folder = Some [(''a-1.png'', Some 0), (''b-1.png'', Some 0)],
     stdout = [''In camera:a total 2 images are repeated.'',
               ''In camera:b total 0 images are repeated.''],
     deleted = [''a-2.png'', ''a-3.png''], remove_errors = []\<rparr>) \<and>
   [''a-2.png'', ''a-3.png''] =
     removal_order [''a-1.png'', ''a-2.png'', ''a-3.png'', ''b-1.png'']
       [(''a'', [1, 2]), (''b'', [])]"
proof -
  have get: "get_camera_id_indices
     (Some [(''a-1.png'', Some (0::int)), (''a-2.png'', Some 0), (''a-3.png'', Some 0),
            (''b-1.png'', Some 0)]) =
     Inr ([(''a'', [0, 1, 2]), (''b'', [3])],
          [''a-1.png'', ''a-2.png'', ''a-3.png'', ''b-1.png''])"
    by code_simp
  have scan: "scan_cameras brightness_imaging default_params
     [(''a-1.png'', Some 0), (''a-2.png'', Some 0), (''a-3.png'', Some 0), (''b-1.png'', Some 0)]
     [''a-1.png'', ''a-2.png'', ''a-3.png'', ''b-1.png'']
     [(''a'', [0, 1, 2]), (''b'', [3])] (None, []) =
     Inr (Some 0, [(''a'', [1, 2]), (''b'', [])])"
    by code_simp
  have run: "remove_ids [(''a'', [1, 2]), (''b'', [])]
      [''a-1.png'', ''a-2.png'', ''a-3.png'', ''b-1.png'']
      \<lparr>folder = Some [(''a-1.png'', Some (0::int)), (''a-2.png'', Some 0),
                       (''a-3.png'', Some 0), (''b-1.png'', Some 0)],
       stdout = [], deleted = [], remove_errors = []\<rparr> =
    (None,
     \<lparr>folder = Some [(''a-1.png'', Some 0), (''b-1.png'', Some 0)],
      stdout = [''In camera:a total 2 images are repeated.'',
                ''In camera:b total 0 images are repeated.''],
      deleted = [''a-2.png'', ''a-3.png''], remove_errors = []\<rparr>)"
    by code_simp
  have "[''a-2.png'', ''a-3.png''] =
     removal_order [''a-1.png'', ''a-2.png'', ''a-3.png'', ''b-1.png'']
       [(''a'', [1, 2]), (''b'', [])]"
    using ascending_indices_and_deletions [OF get scan run] by simp
  with get scan run show ?thesis by blast
qed

text \<open>
  Claim C9: a name of the sorted list with neither \<open>-\<close> nor \<open>_\<close> in it is in the index
  list of every camera whose identifier it starts with; a camera's index list holds
  exactly the indices of the names that start with its identifier.
\<close>

theorem unseparated_name_grouped_by_prefix:
  assumes "get_camera_id_indices fo = Inr (camera_id_indices, Image_files)"
    and "index < length Image_files"
    and "CHR ''-'' \<notin> set (Image_files ! index)"
    and "CHR ''_'' \<notin> set (Image_files ! index)"
    and "(camera_id, img_indices) \<in> set camera_id_indices"
    and "startswith (Image_files ! index) camera_id"
  shows "index \<in> set img_indices \<and>
         set img_indices = {i. i < length Image_files \<and> startswith (Image_files ! i) camera_id}"
proof -
  from grouping_keys(3) [OF assms(1)] assms(5) have
    "img_indices = indices_of camera_id Image_files" by auto
  then have "set img_indices =
      {i. i < length Image_files \<and> startswith (Image_files ! i) camera_id}"
    by (simp add: set_indices_of)
  with assms(2,6) show ?thesis by simp
qed

theorem unseparated_name_grouped_by_prefix_witness:
  "get_camera_id_indices (Some [(''c1.png'', Some (0::int)), (''c1-1.png'', Some 0)]) =
     Inr ([(''c1'', [0, 1])], [''c1-1.png'', ''c1.png'']) \<and>
   (1::nat) < length [''c1-1.png'', ''c1.png''] \<and>
   CHR ''-'' \<notin> set ([''c1-1.png'', ''c1.png''] ! 1) \<and>
   CHR ''_'' \<notin> set ([''c1-1.png'', ''c1.png''] ! 1) \<and>
   (''c1'', [0, 1]) \<in> set [(''c1'', [0, 1 :: nat])] \<and>
   startswith ([''c1-1.png'', ''c1.png''] ! 1) ''c1'' \<and>
   1 \<in> set [0, 1 :: nat] \<and>
   set [0, 1] = {i. i < length [''c1-1.png'', ''c1.png''] \<and>
                    startswith ([''c1-1.png'', ''c1.png''] ! i) ''c1''}"
proof -
  have get: "get_camera_id_indices (Some [(''c1.png'', Some (0::int)), (''c1-1.png'', Some 0)]) =
     Inr ([(''c1'', [0, 1])], [''c1-1.png'', ''c1.png''])"
    by code_simp
  have i: "(1::nat) < length [''c1-1.png'', ''c1.png'']" by simp
  have dash: "CHR ''-'' \<notin> set ([''c1-1.png'', ''c1.png''] ! 1)" by simp
  have under: "CHR ''_'' \<notin> set ([''c1-1.png'', ''c1.png''] ! 1)" by simp
  have cam: "(''c1'', [0, 1]) \<in> set [(''c1'', [0, 1 :: nat])]" by simp
  have pre: "startswith ([''c1-1.png'', ''c1.png''] ! 1) ''c1''" by (simp add: startswith_def)
  from unseparated_name_grouped_by_prefix [OF get i dash under cam pre]
  show ?thesis using get i dash under cam pre by blast
qed

text \<open>Such a file is scored like any other and can be deleted: here \<open>c1.png\<close> is.\<close>

lemma unseparated_name_deleted_example:
  "remove_duplicates brightness_imaging default_params
     \<lparr>folder = Some [(''c1.png'', Some 0), (''c1-1.png'', Some 0)],
      stdout = [], deleted = [], remove_errors = []\<rparr> =
   (None,
    \<lparr>folder = Some [(''c1-1.png'', Some 0)],
     stdout = [''In camera:c1 total 1 images are repeated.''],
     deleted = [''c1.png''], remove_errors = []\<rparr>)"
  by code_simp

text \<open>
  Claim C10: the camera identifiers of the grouping are strictly ascending. The decision
  loop runs on that list from an unassigned \<^verbatim>\<open>prev_frame\<close> and visits the cameras in
  its order: wherever the list is split at a camera, the scan is the scan of the cameras
  before it, then the scan of that camera from the reference they left, with its removal
  list entered after theirs, then the scan of the cameras after it; an error of an
  earlier camera ends the scan before a later one is visited. The removal mapping has
  the keys of the grouping in the same order; the lines printed and the files deleted
  follow that order, as a prefix of the full report and of the full deletion sequence
  when the pass fails, and as the whole of both when the run ends without an error.
\<close>

theorem cameras_in_ascending_order:
  assumes "get_camera_id_indices (folder w) = Inr (camera_id_indices, Image_files)"
    and "remove_duplicates im ps w = (e, w')"
  shows "sorted_wrt (<) (map fst camera_id_indices) \<and>
         (\<exists>entries. folder w = Some entries \<and>
            find_non_essential im ps (folder w) =
              (case scan_cameras im ps entries Image_files camera_id_indices (None, []) of
                 Inl x \<Rightarrow> Inl x
               | Inr (prev_frame, non_essential_data) \<Rightarrow> Inr (non_essential_data, Image_files)) \<and>
            (\<forall>before camera_id img_indices after.
               camera_id_indices = before @ (camera_id, img_indices) # after \<longrightarrow>
               scan_cameras im ps entries Image_files camera_id_indices (None, []) =
                 (case scan_cameras im ps entries Image_files before (None, []) of
                    Inl x \<Rightarrow> Inl x
                  | Inr (prev_frame, found) \<Rightarrow>
                      (case scan_camera im ps entries Image_files img_indices prev_frame of
                         Inl x \<Rightarrow> Inl x
                       | Inr (prev_frame', remove_indices) \<Rightarrow>
                           scan_cameras im ps entries Image_files after
                             (prev_frame', found @ [(camera_id, remove_indices)]))))) \<and>
         (case find_non_essential im ps (folder w) of
            Inl x \<Rightarrow> e = Some x \<and> w' = w
          | Inr (non_essential_data, files) \<Rightarrow>
              files = Image_files \<and>
              map fst non_essential_data = map fst camera_id_indices \<and>
              prefix (stdout w') (stdout w @ report non_essential_data) \<and>
              prefix (deleted w') (deleted w @ removal_order Image_files non_essential_data) \<and>
              (e = None \<longrightarrow>
                 stdout w' = stdout w @ report non_essential_data \<and>
                 deleted w' = deleted w @ removal_order Image_files non_essential_data))"
proof -
  have sorted: "sorted_wrt (<) (map fst camera_id_indices)"
    by (rule grouping_keys(1) [OF assms(1)])
  have dist: "distinct (map fst camera_id_indices)"
    by (rule grouping_keys(2) [OF assms(1)])
  from assms(1) obtain entries where entries: "folder w = Some entries"
    by (rule get_camera_id_indices_Inr)
  have found: "find_non_essential im ps (folder w) =
      (case scan_cameras im ps entries Image_files camera_id_indices (None, []) of
         Inl x \<Rightarrow> Inl x
       | Inr (prev_frame, non_essential_data) \<Rightarrow> Inr (non_essential_data, Image_files))"
    using assms(1) by (simp add: find_non_essential_def entries)
  have turn: "\<forall>before camera_id img_indices after.
      camera_id_indices = before @ (camera_id, img_indices) # after \<longrightarrow>
      scan_cameras im ps entries Image_files camera_id_indices (None, []) =
        (case scan_cameras im ps entries Image_files before (None, []) of
           Inl x \<Rightarrow> Inl x
         | Inr (prev_frame, found) \<Rightarrow>
             (case scan_camera im ps entries Image_files img_indices prev_frame of
                Inl x \<Rightarrow> Inl x
              | Inr (prev_frame', remove_indices) \<Rightarrow>
                  scan_cameras im ps entries Image_files after
                    (prev_frame', found @ [(camera_id, remove_indices)])))"
  proof (intro allI impI)
    fix before camera_id img_indices after
    assume split: "camera_id_indices = before @ (camera_id, img_indices) # after"
    with dist have "distinct (map fst (before @ (camera_id, img_indices) # after))" by simp
    from scan_cameras_in_turn [OF this] split
    show "scan_cameras im ps entries Image_files camera_id_indices (None, []) =
        (case scan_cameras im ps entries Image_files before (None, []) of
           Inl x \<Rightarrow> Inl x
         | Inr (prev_frame, found) \<Rightarrow>
             (case scan_camera im ps entries Image_files img_indices prev_frame of
                Inl x \<Rightarrow> Inl x
              | Inr (prev_frame', remove_indices) \<Rightarrow>
                  scan_cameras im ps entries Image_files after
                    (prev_frame', found @ [(camera_id, remove_indices)])))"
      by simp
  qed
  have order: "\<exists>entries. folder w = Some entries \<and>
      find_non_essential im ps (folder w) =
        (case scan_cameras im ps entries Image_files camera_id_indices (None, []) of
           Inl x \<Rightarrow> Inl x
         | Inr (prev_frame, non_essential_data) \<Rightarrow> Inr (non_essential_data, Image_files)) \<and>
      (\<forall>before camera_id img_indices after.
         camera_id_indices = before @ (camera_id, img_indices) # after \<longrightarrow>
         scan_cameras im ps entries Image_files camera_id_indices (None, []) =
           (case scan_cameras im ps entries Image_files before (None, []) of
              Inl x \<Rightarrow> Inl x
            | Inr (prev_frame, found) \<Rightarrow>
                (case scan_camera im ps entries Image_files img_indices prev_frame of
                   Inl x \<Rightarrow> Inl x
                 | Inr (prev_frame', remove_indices) \<Rightarrow>
                     scan_cameras im ps entries Image_files after
                       (prev_frame', found @ [(camera_id, remove_indices)]))))"
    using entries found turn by blast
  have outcome: "case find_non_essential im ps (folder w) of
            Inl x \<Rightarrow> e = Some x \<and> w' = w
          | Inr (non_essential_data, files) \<Rightarrow>
              files = Image_files \<and>
              map fst non_essential_data = map fst camera_id_indices \<and>
              prefix (stdout w') (stdout w @ report non_essential_data) \<and>
              prefix (deleted w') (deleted w @ removal_order Image_files non_essential_data) \<and>
              (e = None \<longrightarrow>
                 stdout w' = stdout w @ report non_essential_data \<and>
                 deleted w' = deleted w @ removal_order Image_files non_essential_data)"
  proof (cases "find_non_essential im ps (folder w)")
    case (Inl x)
    with assms(2) show ?thesis by (simp add: remove_duplicates_def)
  next
    case (Inr r)
    obtain ned files where r: "r = (ned, files)" by (cases r)
    from Inr r assms(1) obtain p where
      files: "files = Image_files" and
      scan: "scan_cameras im ps (case folder w of None \<Rightarrow> [] | Some entries \<Rightarrow> entries)
               Image_files camera_id_indices (None, []) = Inr (p, ned)"
      by (auto simp: find_non_essential_def split: sum.splits prod.splits)
    have keys: "map fst ned = map fst camera_id_indices"
      by (rule scan_cameras_keys(1) [OF scan dist])
    have run: "remove_ids ned Image_files w = (e, w')"
    proof (cases "ned = []")
      case True
      with assms(2) Inr r show ?thesis by (simp add: remove_duplicates_def)
    next
      case False
      with assms(2) Inr r files show ?thesis by (simp add: remove_duplicates_def)
    qed
    have "prefix (stdout w') (stdout w @ report ned)"
      by (rule remove_ids_stdout_prefix [OF run])
    moreover have "prefix (deleted w') (deleted w @ removal_order Image_files ned)"
      by (rule remove_ids_prefix [OF run])
    moreover have "e = None \<longrightarrow>
        stdout w' = stdout w @ report ned \<and>
        deleted w' = deleted w @ removal_order Image_files ned"
      using run by (auto dest: remove_ids_ok)
    ultimately show ?thesis using keys files Inr r by simp
  qed
  from sorted order outcome show ?thesis by (intro conjI)
qed

theorem cameras_in_ascending_order_witness:
  "get_camera_id_indices
     (folder \<lparr>folder = Some [(''b-2.png'', Some (0::int)), (''a-1.png'', Some 0),
                             (''b-1.png'', None)],
              stdout = [], deleted = [], remove_errors = []\<rparr>) =
     Inr ([(''a'', [0]), (''b'', [1, 2])], [''a-1.png'', ''b-1.png'', ''b-2.png'']) \<and>
   remove_duplicates brightness_imaging default_params
     \<lparr>folder = Some [(''b-2.png'', Some (0::int)), (''a-1.png'', Some 0), (''b-1.png'', None)],
      stdout = [], deleted = [], remove_errors = []\<rparr> =
   (None,
    \<lparr>folder = Some [(''a-1.png'', Some 0)],
     stdout = [''In camera:a total 0 images are repeated.'',
               ''In camera:b total 2 images are repeated.''],
     deleted = [''b-1.png'', ''b-2.png''], remove_errors = []\<rparr>) \<and>
   sorted_wrt (<) (map fst [(''a'', [0 :: nat]), (''b'', [1, 2])]) \<and>
   scan_cameras brightness_imaging default_params
     [(''b-2.png'', Some 0), (''a-1.png'', Some 0), (''b-1.png'', None)]
     [''a-1.png'', ''b-1.png'', ''b-2.png''] [(''a'', [0]), (''b'', [1, 2])] (None, []) =
     (case scan_cameras brightness_imaging default_params
             [(''b-2.png'', Some 0), (''a-1.png'', Some 0), (''b-1.png'', None)]
             [''a-1.png'', ''b-1.png'', ''b-2.png''] [(''a'', [0])] (None, []) of
        Inl x \<Rightarrow> Inl x
      | Inr (prev_frame, found) \<Rightarrow>
          (case scan_camera brightness_imaging default_params
                  [(''b-2.png'', Some 0), (''a-1.png'', Some 0), (''b-1.png'', None)]
                  [''a-1.png'', ''b-1.png'', ''b-2.png''] [1, 2] prev_frame of
             Inl x \<Rightarrow> Inl x
           | Inr (prev_frame', remove_indices) \<Rightarrow>
               scan_cameras brightness_imaging default_params
                 [(''b-2.png'', Some 0), (''a-1.png'', Some 0), (''b-1.png'', None)]
                 [''a-1.png'', ''b-1.png'', ''b-2.png''] []
                 (prev_frame', found @ [(''b'', remove_indices)]))) \<and>
   [''In camera:a total 0 images are repeated.'', ''In camera:b total 2 images are repeated.''] =
     report [(''a'', []), (''b'', [1, 2])] \<and>
   [''b-1.png'', ''b-2.png''] =
     removal_order [''a-1.png'', ''b-1.png'', ''b-2.png''] [(''a'', []), (''b'', [1, 2])]"
proof -
  let ?es = "[(''b-2.png'', Some (0::int)), (''a-1.png'', Some 0), (''b-1.png'', None)]"
  let ?fs = "[''a-1.png'', ''b-1.png'', ''b-2.png'']"
  let ?w = "\<lparr>folder = Some ?es, stdout = [], deleted = [], remove_errors = []\<rparr>"
  have get: "get_camera_id_indices (folder ?w) =
     Inr ([(''a'', [0]), (''b'', [1, 2])], ?fs)"
    by code_simp
  have run: "remove_duplicates brightness_imaging default_params ?w =
   (None,
    \<lparr>folder = Some [(''a-1.png'', Some 0)],
     stdout = [''In camera:a total 0 images are repeated.'',
               ''In camera:b total 2 images are repeated.''],
     deleted = [''b-1.png'', ''b-2.png''], remove_errors = []\<rparr>)"
    by code_simp
  have found: "find_non_essential brightness_imaging default_params (folder ?w) =
     Inr ([(''a'', []), (''b'', [1, 2])], ?fs)"
    by code_simp
  note inst = cameras_in_ascending_order [OF get run]
  from inst have sorted: "sorted_wrt (<) (map fst [(''a'', [0 :: nat]), (''b'', [1, 2])])"
    by (rule conjunct1)
  from inst obtain entries where entries: "folder ?w = Some entries"
    and turn: "\<forall>before camera_id img_indices after.
      [(''a'', [0]), (''b'', [1, 2])] = before @ (camera_id, img_indices) # after \<longrightarrow>
      scan_cameras brightness_imaging default_params entries ?fs
          [(''a'', [0]), (''b'', [1, 2])] (None, []) =
        (case scan_cameras brightness_imaging default_params entries ?fs before (None, []) of
           Inl x \<Rightarrow> Inl x
         | Inr (prev_frame, found) \<Rightarrow>
             (case scan_camera brightness_imaging default_params entries ?fs img_indices
                     prev_frame of
                Inl x \<Rightarrow> Inl x
              | Inr (prev_frame', remove_indices) \<Rightarrow>
                  scan_cameras brightness_imaging default_params entries ?fs after
                    (prev_frame', found @ [(camera_id, remove_indices)])))"
    by blast
  from entries have es: "entries = ?es" by simp
  have split: "[(''a'', [0 :: nat]), (''b'', [1, 2])] = [(''a'', [0])] @ (''b'', [1, 2]) # []"
    by simp
  from turn have "[(''a'', [0 :: nat]), (''b'', [1, 2])] = [(''a'', [0])] @ (''b'', [1, 2]) # [] \<longrightarrow>
      scan_cameras brightness_imaging default_params entries ?fs
          [(''a'', [0]), (''b'', [1, 2])] (None, []) =
        (case scan_cameras brightness_imaging default_params entries ?fs [(''a'', [0])]
                (None, []) of
           Inl x \<Rightarrow> Inl x
         | Inr (prev_frame, found) \<Rightarrow>
             (case scan_camera brightness_imaging default_params entries ?fs [1, 2]
                     prev_frame of
                Inl x \<Rightarrow> Inl x
              | Inr (prev_frame', remove_indices) \<Rightarrow>
                  scan_cameras brightness_imaging default_params entries ?fs []
                    (prev_frame', found @ [(''b'', remove_indices)])))"
    by blast
  with split have law: "scan_cameras brightness_imaging default_params ?es ?fs
          [(''a'', [0]), (''b'', [1, 2])] (None, []) =
        (case scan_cameras brightness_imaging default_params ?es ?fs [(''a'', [0])]
                (None, []) of
           Inl x \<Rightarrow> Inl x
         | Inr (prev_frame, found) \<Rightarrow>
             (case scan_camera brightness_imaging default_params ?es ?fs [1, 2]
                     prev_frame of
                Inl x \<Rightarrow> Inl x
              | Inr (prev_frame', remove_indices) \<Rightarrow>
                  scan_cameras brightness_imaging default_params ?es ?fs []
                    (prev_frame', found @ [(''b'', remove_indices)])))"
    unfolding es by (rule mp [rotated])
  from inst have "case find_non_essential brightness_imaging default_params (folder ?w) of
      Inl x \<Rightarrow> None = Some x \<and>
        \<lparr>folder = Some [(''a-1.png'', Some 0)],
         stdout = [''In camera:a total 0 images are repeated.'',
                   ''In camera:b total 2 images are repeated.''],
         deleted = [''b-1.png'', ''b-2.png''], remove_errors = []\<rparr> = ?w
    | Inr (non_essential_data, files) \<Rightarrow>
        files = ?fs \<and>
        map fst non_essential_data = map fst [(''a'', [0 :: nat]), (''b'', [1, 2])] \<and>
        prefix (stdout \<lparr>folder = Some [(''a-1.png'', Some (0::int))],
                 stdout = [''In camera:a total 0 images are repeated.'',
                           ''In camera:b total 2 images are repeated.''],
                 deleted = [''b-1.png'', ''b-2.png''], remove_errors = []\<rparr>)
          (stdout ?w @ report non_essential_data) \<and>
        prefix (deleted \<lparr>folder = Some [(''a-1.png'', Some (0::int))],
                 stdout = [''In camera:a total 0 images are repeated.'',
                           ''In camera:b total 2 images are repeated.''],
                 deleted = [''b-1.png'', ''b-2.png''], remove_errors = []\<rparr>)
          (deleted ?w @ removal_order ?fs non_essential_data) \<and>
        (None = (None :: error option) \<longrightarrow>
           stdout \<lparr>folder = Some [(''a-1.png'', Some (0::int))],
                 stdout = [''In camera:a total 0 images are repeated.'',
                           ''In camera:b total 2 images are repeated.''],
                 deleted = [''b-1.png'', ''b-2.png''], remove_errors = []\<rparr> =
             stdout ?w @ report non_essential_data \<and>
           deleted \<lparr>folder = Some [(''a-1.png'', Some (0::int))],
                 stdout = [''In camera:a total 0 images are repeated.'',
                           ''In camera:b total 2 images are repeated.''],
                 deleted = [''b-1.png'', ''b-2.png''], remove_errors = []\<rparr> =
             deleted ?w @ removal_order ?fs non_essential_data)"
    by (rule conjunct2 [THEN conjunct2])
  then have out: "[''In camera:a total 0 images are repeated.'',
         ''In camera:b total 2 images are repeated.''] =
          report [(''a'', []), (''b'', [1, 2])] \<and>
        [''b-1.png'', ''b-2.png''] =
          removal_order ?fs [(''a'', []), (''b'', [1, 2])]"
    unfolding found by simp
  from get run sorted law out show ?thesis by (intro conjI) simp_all
qed

end
